theory Spec2Isabelle
  imports Main "HOL-Library.AList" "HOL-Library.Char_ord" "HOL-Library.List_Lexorder"
    "HOL-Library.Multiset"
begin

section \<open>The release packager \<^verbatim>\<open>publish.py\<close>\<close>

text \<open>
  The script is a straight line of calls into \<^verbatim>\<open>os\<close>, \<^verbatim>\<open>shutil\<close> and
  \<^verbatim>\<open>platform\<close>. The embedding has three layers:
  \<^item> the working directory as a tree of named entries, and the library calls the script
    makes as functions on that tree which either fail with the exception the call raises
    or return the new tree;
  \<^item> the host (\<^verbatim>\<open>platform.system()\<close>, \<^verbatim>\<open>platform.machine()\<close>), the build command
    (\<^verbatim>\<open>os.system\<close>) and the order in which the file system lists a directory as
    parameters;
  \<^item> the script itself: the module constants, \<^verbatim>\<open>pack\<close> and the module body.

  A path is the list of its components, relative to the working directory. The paths the
  script spells out (\<^verbatim>\<open>tmp\<close>, \<^verbatim>\<open>target/release/skye\<close>, ...) are written as such lists;
  the one path it computes from the host, the base name of the archive, is a string that
  is split at the separators of the host. A component \<^verbatim>\<open>..\<close> is not interpreted.
  Symbolic links, permissions and modification times are not part of the model.
\<close>

subsection \<open>The working directory\<close>

text \<open>
  A file holds raw bytes or is a zip archive; an archive is the list of its members in the
  order they were written, a member being a path inside the archive together with the
  content of the file (\<open>None\<close> for a directory member). The entries of a directory are
  kept in the order they were created, which is not the order the file system lists
  them in (see \<open>os_scandir\<close>).
\<close>

datatype content = Raw string | Packed "(string list \<times> content option) list"

datatype node = File content | Dir "(string \<times> node) list"

type_synonym path = "string list"
type_synonym entries = "(string \<times> node) list"
type_synonym members = "(string list \<times> content option) list"

datatype pyerr =
    FileNotFoundError
  | FileExistsError
  | NotADirectoryError
  | IsADirectoryError
  | SameFileError

text \<open>How the process ends: it runs to the end of the module (exit status 0), leaves through
  \<^verbatim>\<open>sys.exit(n)\<close>, or dies of an exception nobody caught.\<close>

datatype outcome = Finished | SysExit int | Raised pyerr

fun lookup :: "entries \<Rightarrow> path \<Rightarrow> node option" where
  "lookup es [] = Some (Dir es)"
| "lookup es (x # xs) =
     (case map_of es x of
        None \<Rightarrow> None
      | Some (File c) \<Rightarrow> (if xs = [] then Some (File c) else None)
      | Some (Dir ds) \<Rightarrow> lookup ds xs)"

text \<open>\<open>put\<close> stores a node at a path whose parent is a directory (the callers check that
  first); \<open>remove\<close> unlinks the entry at a path.\<close>

fun put :: "entries \<Rightarrow> path \<Rightarrow> node \<Rightarrow> entries" where
  "put es [] n = es"
| "put es [x] n = AList.update x n es"
| "put es (x # y # ys) n =
     (case map_of es x of
        Some (Dir ds) \<Rightarrow> AList.update x (Dir (put ds (y # ys) n)) es
      | _ \<Rightarrow> es)"

fun remove :: "entries \<Rightarrow> path \<Rightarrow> entries" where
  "remove es [] = es"
| "remove es [x] = AList.delete x es"
| "remove es (x # y # ys) =
     (case map_of es x of
        Some (Dir ds) \<Rightarrow> AList.update x (Dir (remove ds (y # ys))) es
      | _ \<Rightarrow> es)"

definition is_file :: "entries \<Rightarrow> path \<Rightarrow> bool" where
  "is_file fs p = (case lookup fs p of Some (File _) \<Rightarrow> True | _ \<Rightarrow> False)"

definition basename :: "path \<Rightarrow> path" where
  "basename p = (if p = [] then [] else [last p])"

definition dirname :: "path \<Rightarrow> path" where
  "dirname p = butlast p"

definition add_ext :: "path \<Rightarrow> string \<Rightarrow> path" where
  "add_ext p e = (if p = [] then [e] else butlast p @ [last p @ e])"

text \<open>The error of a path that does not resolve: a component is missing, or the path runs
  through a regular file.\<close>

fun missing_error :: "entries \<Rightarrow> path \<Rightarrow> pyerr" where
  "missing_error es [] = FileNotFoundError"
| "missing_error es (x # xs) =
     (case map_of es x of
        None \<Rightarrow> FileNotFoundError
      | Some (File c) \<Rightarrow> NotADirectoryError
      | Some (Dir ds) \<Rightarrow> missing_error ds xs)"

subsection \<open>Paths given as strings\<close>

text \<open>\<open>split_path\<close> cuts a string at its separators (\<open>acc\<close> is the component being read);
  empty components and \<^verbatim>\<open>.\<close> do not count. \<^verbatim>\<open>os.path.dirname\<close> is what precedes the
  last separator, without the separators it ends in. \<^verbatim>\<open>os.path.join\<close> is called by the
  script with a second argument that starts with \<^verbatim>\<open>Skye-\<close>, so never with an absolute
  one; the two parts are joined by a slash, which is a separator on every host.\<close>

fun split_path :: "(char \<Rightarrow> bool) \<Rightarrow> string \<Rightarrow> string \<Rightarrow> string list" where
  "split_path sep acc [] = [acc]"
| "split_path sep acc (c # cs) =
     (if sep c then acc # split_path sep [] cs else split_path sep (acc @ [c]) cs)"

definition components :: "(char \<Rightarrow> bool) \<Rightarrow> string \<Rightarrow> path" where
  "components sep s = filter (\<lambda>c. c \<noteq> [] \<and> c \<noteq> ''.'') (split_path sep [] s)"

definition os_path_dirname :: "(char \<Rightarrow> bool) \<Rightarrow> string \<Rightarrow> string" where
  "os_path_dirname sep s = rev (dropWhile sep (dropWhile (\<lambda>c. \<not> sep c) (rev s)))"

definition os_path_join :: "string \<Rightarrow> string \<Rightarrow> string" where
  "os_path_join a b = a @ ''/'' @ b"

subsection \<open>The library calls\<close>

definition os_path_exists :: "entries \<Rightarrow> path \<Rightarrow> bool" where
  "os_path_exists fs p = (lookup fs p \<noteq> None)"

definition os_mkdir :: "entries \<Rightarrow> path \<Rightarrow> pyerr + entries" where
  "os_mkdir fs p =
     (case lookup fs p of
        Some _ \<Rightarrow> Inl FileExistsError
      | None \<Rightarrow>
          (case lookup fs (dirname p) of
             None \<Rightarrow> Inl (missing_error fs (dirname p))
           | Some (File _) \<Rightarrow> Inl NotADirectoryError
           | Some (Dir _) \<Rightarrow> Inr (put fs p (Dir []))))"

text \<open>\<^verbatim>\<open>os.makedirs(p)\<close> with \<^verbatim>\<open>exist_ok=False\<close>: missing parents are created, the last
  component must be new.\<close>

fun os_makedirs :: "entries \<Rightarrow> path \<Rightarrow> pyerr + entries" where
  "os_makedirs es [] = Inl FileExistsError"
| "os_makedirs es [x] =
     (case map_of es x of
        Some _ \<Rightarrow> Inl FileExistsError
      | None \<Rightarrow> Inr (AList.update x (Dir []) es))"
| "os_makedirs es (x # y # ys) =
     (case map_of es x of
        None \<Rightarrow>
          (case os_makedirs [] (y # ys) of
             Inl e \<Rightarrow> Inl e
           | Inr ds \<Rightarrow> Inr (AList.update x (Dir ds) es))
      | Some (File _) \<Rightarrow> Inl NotADirectoryError
      | Some (Dir ds) \<Rightarrow>
          (case os_makedirs ds (y # ys) of
             Inl e \<Rightarrow> Inl e
           | Inr ds' \<Rightarrow> Inr (AList.update x (Dir ds') es)))"

definition shutil_rmtree :: "entries \<Rightarrow> path \<Rightarrow> pyerr + entries" where
  "shutil_rmtree fs p =
     (case lookup fs p of
        None \<Rightarrow> Inl (missing_error fs p)
      | Some (File _) \<Rightarrow> Inl NotADirectoryError
      | Some (Dir _) \<Rightarrow> Inr (remove fs p))"

text \<open>Opening a path for writing and writing \<open>c\<close>: creates the file or replaces its content.\<close>

definition write_file :: "entries \<Rightarrow> path \<Rightarrow> content \<Rightarrow> pyerr + entries" where
  "write_file fs p c =
     (case lookup fs p of
        Some (Dir _) \<Rightarrow> Inl IsADirectoryError
      | Some (File _) \<Rightarrow> Inr (put fs p (File c))
      | None \<Rightarrow>
          (case lookup fs (dirname p) of
             None \<Rightarrow> Inl (missing_error fs (dirname p))
           | Some (File _) \<Rightarrow> Inl NotADirectoryError
           | Some (Dir _) \<Rightarrow> Inr (put fs p (File c))))"

definition shutil_copyfile :: "entries \<Rightarrow> path \<Rightarrow> path \<Rightarrow> pyerr + entries" where
  "shutil_copyfile fs src dst =
     (if src = dst \<and> os_path_exists fs src then Inl SameFileError
      else case lookup fs src of
             None \<Rightarrow> Inl (missing_error fs src)
           | Some (Dir _) \<Rightarrow> Inl IsADirectoryError
           | Some (File c) \<Rightarrow> write_file fs dst c)"

text \<open>\<^verbatim>\<open>shutil.copy(src, dst)\<close>: when \<open>dst\<close> is a directory the file goes into it under the
  name it has in \<open>src\<close>.\<close>

definition shutil_copy :: "entries \<Rightarrow> path \<Rightarrow> path \<Rightarrow> pyerr + entries" where
  "shutil_copy fs src dst =
     shutil_copyfile fs src
       (case lookup fs dst of Some (Dir _) \<Rightarrow> dst @ basename src | _ \<Rightarrow> dst)"

text \<open>
  The order in which \<^verbatim>\<open>os.scandir\<close> and \<^verbatim>\<open>os.walk\<close> list a directory is the file
  system's. It is a parameter: a rank for every name, the listing being the entries
  sorted by the rank of their names (entries of equal rank in the order of creation). So a
  listing is always a rearrangement of the directory, in an order the script has no say
  in.
\<close>

type_synonym listing = "string \<Rightarrow> nat"

definition os_scandir :: "listing \<Rightarrow> entries \<Rightarrow> entries" where
  "os_scandir rank es = sort_key (\<lambda>e. rank (fst e)) es"

text \<open>\<^verbatim>\<open>shutil.copytree(src, dst)\<close> lists \<open>src\<close>, creates \<open>dst\<close> (which must be new) and copies
  every entry of the listing below it, directories recursively.\<close>

function copy_node :: "listing \<Rightarrow> node \<Rightarrow> node" where
  "copy_node rank (File c) = File c"
| "copy_node rank (Dir es) =
     Dir (map (\<lambda>(n, x). (n, copy_node rank x)) (os_scandir rank es))"
  by pat_completeness auto
termination
proof (relation "measure (\<lambda>(rank, x). size x)")
  show "wf (measure (\<lambda>(rank, x). size x))" by simp
next
  fix rank :: listing and es :: entries and p :: "string \<times> node" and n x
  assume "p \<in> set (os_scandir rank es)" and "(n, x) = p"
  then have "(n, x) \<in> set es" by (simp add: os_scandir_def)
  then have "size x \<le> size_list (size_prod (\<lambda>x. 0) size) es"
    by (rule size_list_estimation') simp
  then show "((rank, x), (rank, Dir es)) \<in> measure (\<lambda>(rank, x). size x)" by simp
qed

definition shutil_copytree :: "listing \<Rightarrow> entries \<Rightarrow> path \<Rightarrow> path \<Rightarrow> pyerr + entries" where
  "shutil_copytree rank fs src dst =
     (case lookup fs src of
        None \<Rightarrow> Inl (missing_error fs src)
      | Some (File _) \<Rightarrow> Inl NotADirectoryError
      | Some (Dir es) \<Rightarrow>
          (case os_makedirs fs dst of
             Inl e \<Rightarrow> Inl e
           | Inr fs' \<Rightarrow> Inr (put fs' dst (copy_node rank (Dir es)))))"

text \<open>
  The zip writer of \<^verbatim>\<open>shutil.make_archive\<close> walks the root directory top-down. In each
  directory it first writes a member for every subdirectory, the names sorted, then one
  for every file, in the order of the listing, and then descends into the subdirectories,
  in the order of the listing. Member names are relative to the root directory.
\<close>

function zip_walk :: "listing \<Rightarrow> path \<Rightarrow> entries \<Rightarrow> members" where
  "zip_walk rank pre es =
     map (\<lambda>n. (pre @ [n], None))
       (sort (concat (map (\<lambda>(n, x). case x of Dir _ \<Rightarrow> [n] | File _ \<Rightarrow> [])
                            (os_scandir rank es))))
   @ concat (map (\<lambda>(n, x). case x of File c \<Rightarrow> [(pre @ [n], Some c)] | Dir _ \<Rightarrow> [])
                   (os_scandir rank es))
   @ concat (map (\<lambda>(n, x). case x of Dir ds \<Rightarrow> zip_walk rank (pre @ [n]) ds | File _ \<Rightarrow> [])
                   (os_scandir rank es))"
  by pat_completeness auto
termination
proof (relation "measure (\<lambda>(rank, pre, es). size (Dir es))")
  show "wf (measure (\<lambda>(rank, pre, es). size (Dir es)))" by simp
next
  fix rank :: listing and pre :: path and es :: entries and p :: "string \<times> node" and n x ds
  assume "p \<in> set (os_scandir rank es)" and "(n, x) = p" and "x = Dir ds"
  then have "(n, Dir ds) \<in> set es" by (simp add: os_scandir_def)
  then have "size (Dir ds) \<le> size_list (size_prod (\<lambda>x. 0) size) es"
    by (rule size_list_estimation') simp
  then show "((rank, pre @ [n], ds), (rank, pre, es))
               \<in> measure (\<lambda>(rank, pre, es). size (Dir es))"
    by simp
qed

declare zip_walk.simps [simp del]

text \<open>
  \<^verbatim>\<open>shutil.make_archive(base_name, "zip", root_dir)\<close>: the root must be a directory; the
  directory of the archive is created when it is missing; the archive is written to
  \<^verbatim>\<open>base_name + ".zip"\<close>, replacing a file of that name. Nothing is left behind when the
  call fails: the only step before the archive is opened creates its directory, and a file
  can always be created in a directory just made.
\<close>

definition shutil_make_archive ::
    "(char \<Rightarrow> bool) \<Rightarrow> listing \<Rightarrow> entries \<Rightarrow> string \<Rightarrow> path \<Rightarrow> pyerr + entries" where
  "shutil_make_archive sep rank fs base_name root_dir =
     (case lookup fs root_dir of
        None \<Rightarrow> Inl (missing_error fs root_dir)
      | Some (File _) \<Rightarrow> Inl NotADirectoryError
      | Some (Dir rs) \<Rightarrow>
          (case (if os_path_dirname sep base_name \<noteq> []
                    \<and> \<not> os_path_exists fs (components sep (os_path_dirname sep base_name))
                 then os_makedirs fs (components sep (os_path_dirname sep base_name))
                 else Inr fs) of
             Inl e \<Rightarrow> Inl e
           | Inr fs' \<Rightarrow>
               write_file fs' (components sep (base_name @ ''.zip''))
                 (Packed (zip_walk rank [] rs))))"

subsection \<open>The script\<close>

record host =
  system :: string
  machine :: string

definition PLATFORM :: "host \<Rightarrow> string" where
  "PLATFORM h = (if system h = ''Darwin'' then ''macOS'' else system h)"

definition ARCH :: "host \<Rightarrow> string" where
  "ARCH h = machine h"

text \<open>The path separators of the host: the slash, and on Windows the backslash too.\<close>

definition is_sep :: "host \<Rightarrow> char \<Rightarrow> bool" where
  "is_sep h c = (c = CHR ''/'' \<or> (system h = ''Windows'' \<and> c = CHR 0x5C))"

text \<open>The name of the compiled binary, as \<^verbatim>\<open>pack\<close> selects it.\<close>

definition binary_name :: "host \<Rightarrow> string" where
  "binary_name h = (if PLATFORM h = ''Windows'' then ''skye.exe'' else ''skye'')"

text \<open>The f-string \<^verbatim>\<open>Skye-{ARCH}-{PLATFORM}\<close>.\<close>

definition archive_base :: "host \<Rightarrow> string" where
  "archive_base h = ''Skye-'' @ ARCH h @ ''-'' @ PLATFORM h"

text \<open>
  \<^verbatim>\<open>os.system\<close> is a parameter: given the command line and the working directory it
  returns the status and the working directory as the command left it. An exception leaves
  the tree as the failing call found it.
\<close>

type_synonym shell = "string \<Rightarrow> entries \<Rightarrow> int \<times> entries"

definition pack :: "shell \<Rightarrow> listing \<Rightarrow> host \<Rightarrow> string \<Rightarrow> entries \<Rightarrow> outcome \<times> entries" where
  "pack os_system rank h cmd fs =
     (case os_system cmd fs of (code, fs0) \<Rightarrow>
        if code \<noteq> 0 then (SysExit 1, fs0)
        else (case os_mkdir fs0 [''tmp''] of
          Inl e \<Rightarrow> (Raised e, fs0)
        | Inr fs1 \<Rightarrow>
        (case shutil_copy fs1 [''target'', ''release'', binary_name h] [''tmp''] of
          Inl e \<Rightarrow> (Raised e, fs1)
        | Inr fs2 \<Rightarrow>
        (case shutil_copy fs2 [''LICENSE''] [''tmp''] of
          Inl e \<Rightarrow> (Raised e, fs2)
        | Inr fs3 \<Rightarrow>
        (case shutil_copytree rank fs3 [''lib''] [''tmp'', ''lib''] of
          Inl e \<Rightarrow> (Raised e, fs3)
        | Inr fs4 \<Rightarrow>
        (case shutil_make_archive (is_sep h) rank fs4
                (os_path_join ''publish'' (archive_base h)) [''tmp''] of
          Inl e \<Rightarrow> (Raised e, fs4)
        | Inr fs5 \<Rightarrow>
        (case shutil_rmtree fs5 [''tmp''] of
          Inl e \<Rightarrow> (Raised e, fs5)
        | Inr fs6 \<Rightarrow> (Finished, fs6))))))))"

definition main :: "shell \<Rightarrow> listing \<Rightarrow> host \<Rightarrow> entries \<Rightarrow> outcome \<times> entries" where
  "main os_system rank h fs =
     (case (if os_path_exists fs [''publish''] then shutil_rmtree fs [''publish'']
            else Inr fs) of
        Inl e \<Rightarrow> (Raised e, fs)
      | Inr fs1 \<Rightarrow>
          (case os_mkdir fs1 [''publish''] of
             Inl e \<Rightarrow> (Raised e, fs1)
           | Inr fs2 \<Rightarrow> pack os_system rank h ''cargo build --release'' fs2))"

subsection \<open>What a run leaves behind\<close>

text \<open>The staging directory once the three copies are done; the file name of the archive
  (\<^verbatim>\<open>make_archive\<close> appends the extension to the base name) and the path it is opened
  at; the working directory as the module body hands it to \<^verbatim>\<open>pack\<close>: without the old
  \<^verbatim>\<open>publish\<close>, with an empty one.\<close>

definition staging :: "listing \<Rightarrow> host \<Rightarrow> content \<Rightarrow> content \<Rightarrow> entries \<Rightarrow> entries" where
  "staging rank h bin lic es =
     [(binary_name h, File bin), (''LICENSE'', File lic), (''lib'', copy_node rank (Dir es))]"

definition archive_file :: "host \<Rightarrow> string" where
  "archive_file h = archive_base h @ ''.zip''"

definition archive_path :: "host \<Rightarrow> path" where
  "archive_path h = components (is_sep h) (os_path_join ''publish'' (archive_base h) @ ''.zip'')"

definition fresh_publish :: "entries \<Rightarrow> entries" where
  "fresh_publish fs = AList.update ''publish'' (Dir []) (AList.delete ''publish'' fs)"

text \<open>A host whose machine and system names hold no path separator.\<close>

definition plain_names :: "host \<Rightarrow> bool" where
  "plain_names h = list_all (\<lambda>c. \<not> is_sep h c) (machine h @ system h)"

text \<open>The selection of the binary name, had it tested the raw name of the operating system
  instead of the normalised one.\<close>

definition binary_name_raw :: "host \<Rightarrow> string" where
  "binary_name_raw h = (if system h = ''Windows'' then ''skye.exe'' else ''skye'')"

subsection \<open>Sample hosts, listings, trees and build commands\<close>

definition linux_host :: host where
  "linux_host = \<lparr>system = ''Linux'', machine = ''x86_64''\<rparr>"

definition mac_host :: host where
  "mac_host = \<lparr>system = ''Darwin'', machine = ''arm64''\<rparr>"

definition windows_host :: host where
  "windows_host = \<lparr>system = ''Windows'', machine = ''AMD64''\<rparr>"

text \<open>HP-UX reports machine strings such as \<^verbatim>\<open>9000/800\<close>.\<close>

definition hpux_host :: host where
  "hpux_host = \<lparr>system = ''HP-UX'', machine = ''9000/800''\<rparr>"

text \<open>A file system that lists a directory by the first character of the names.\<close>

definition by_initial :: listing where
  "by_initial n = (case n of [] \<Rightarrow> 0 | c # cs \<Rightarrow> of_char c)"

definition sample_lib :: entries where
  "sample_lib = [(''a.txt'', File (Raw ''alpha'')), (''sub'', Dir [(''b.txt'', File (Raw ''beta''))])]"

text \<open>A checkout with an archive of an earlier run in \<^verbatim>\<open>publish\<close>.\<close>

definition sample_tree :: entries where
  "sample_tree =
     [(''LICENSE'', File (Raw ''MIT'')),
      (''lib'', Dir sample_lib),
      (''publish'', Dir [(''Skye-old.zip'', File (Packed []))])]"

text \<open>A build that succeeds and writes \<^verbatim>\<open>target/release/skye\<close>; one that writes
  \<^verbatim>\<open>skye.exe\<close>; one that fails (exit status 2, which \<^verbatim>\<open>os.system\<close> reports as the wait
  status 512) and writes nothing.\<close>

definition cargo_ok :: shell where
  "cargo_ok cmd fs =
     (0, AList.update ''target'' (Dir [(''release'', Dir [(''skye'', File (Raw ''ELF''))])]) fs)"

definition cargo_ok_exe :: shell where
  "cargo_ok_exe cmd fs =
     (0, AList.update ''target'' (Dir [(''release'', Dir [(''skye.exe'', File (Raw ''MZ''))])]) fs)"

definition cargo_fail :: shell where
  "cargo_fail cmd fs = (512, fs)"

text \<open>A checkout in which an interrupted run left its staging directory, and one without
  the licence file.\<close>

definition stale_tree :: entries where
  "stale_tree = (''tmp'', Dir [(''junk'', File (Raw ''left over''))]) # sample_tree"

definition unlicensed_tree :: entries where
  "unlicensed_tree = [(''lib'', Dir sample_lib)]"

section \<open>Properties\<close>

subsection \<open>The tree\<close>

lemma delete_absent: "map_of es k = None \<Longrightarrow> AList.delete k es = es"
  by (induction es) (auto split: if_splits)

lemma lookup_single: "lookup es [x] = map_of es x"
  by (auto split: option.splits node.splits)

lemma put_frame: "x \<noteq> y \<Longrightarrow> map_of (put es (y # p) n) x = map_of es x"
  by (cases p) (auto simp: update_conv' split: option.splits node.splits)

lemma os_makedirs_frame:
  "os_makedirs es (y # p) = Inr es' \<Longrightarrow> x \<noteq> y \<Longrightarrow> map_of es' x = map_of es x"
  by (cases p) (auto simp: update_conv' split: option.splits node.splits sum.splits)

lemma lookup_parent:
  "lookup es p = Some n \<Longrightarrow> p \<noteq> [] \<Longrightarrow> \<exists>d. lookup es (butlast p) = Some (Dir d)"
proof (induction p arbitrary: es)
  case Nil
  then show ?case by simp
next
  case (Cons x xs)
  show ?case
  proof (cases xs)
    case Nil
    then show ?thesis by simp
  next
    case (Cons y ys)
    with Cons.prems obtain ds where ds: "map_of es x = Some (Dir ds)"
      and sub: "lookup ds xs = Some n"
      by (auto split: option.splits node.splits if_splits)
    from Cons.IH [OF sub] Cons obtain d where "lookup ds (butlast xs) = Some (Dir d)"
      by auto
    with ds Cons show ?thesis by simp
  qed
qed

lemma lookup_put_same:
  "lookup es (butlast p) = Some (Dir d) \<Longrightarrow> p \<noteq> [] \<Longrightarrow> lookup (put es p n) p = Some n"
proof (induction p arbitrary: es)
  case Nil
  then show ?case by simp
next
  case (Cons x xs)
  show ?case
  proof (cases xs)
    case Nil
    then show ?thesis by (cases n) (simp_all add: update_conv')
  next
    case (Cons y ys)
    with Cons.prems obtain ds where ds: "map_of es x = Some (Dir ds)"
      and sub: "lookup ds (butlast xs) = Some (Dir d)"
      by (auto split: option.splits node.splits if_splits)
    from Cons.IH [OF sub] Cons have "lookup (put ds xs n) xs = Some n" by simp
    with ds Cons show ?thesis by (simp add: update_conv')
  qed
qed

lemma write_file_lookup:
  assumes "write_file fs p c = Inr fs'"
  shows "lookup fs' p = Some (File c)"
proof -
  from assms have ne: "p \<noteq> []"
    by (auto simp: write_file_def)
  from assms have fs': "fs' = put fs p (File c)"
    by (auto simp: write_file_def split: option.splits node.splits)
  from assms obtain d where "lookup fs (butlast p) = Some (Dir d)"
    using lookup_parent [of fs p _, OF _ ne]
    by (auto simp: write_file_def dirname_def split: option.splits node.splits)
  from lookup_put_same [OF this ne] fs' show ?thesis by simp
qed

lemma write_file_frame:
  "write_file fs (y # p) c = Inr fs' \<Longrightarrow> x \<noteq> y \<Longrightarrow> map_of fs' x = map_of fs x"
  by (auto simp: write_file_def put_frame split: option.splits node.splits)

subsection \<open>Paths given as strings\<close>

lemma split_path_nonempty: "split_path sep acc s \<noteq> []"
  by (induction s arbitrary: acc) auto

lemma split_path_plain:
  "\<forall>c \<in> set s. \<not> sep c \<Longrightarrow> split_path sep acc s = [acc @ s]"
  by (induction s arbitrary: acc) auto

lemma split_path_cut:
  "\<forall>c \<in> set a. \<not> sep c \<Longrightarrow> sep x \<Longrightarrow>
     split_path sep acc (a @ x # s) = (acc @ a) # split_path sep [] s"
  by (induction a arbitrary: acc) auto

lemma split_path_last:
  "\<forall>c \<in> set t. \<not> sep c \<Longrightarrow>
     split_path sep acc (s @ t)
       = butlast (split_path sep acc s) @ [last (split_path sep acc s) @ t]"
proof (induction s arbitrary: acc)
  case Nil
  then show ?case by (simp add: split_path_plain)
next
  case (Cons c s)
  from Cons show ?case by (simp add: split_path_nonempty)
qed

declare split_path.simps [simp del]

lemma is_sep_publish: "\<forall>c \<in> set ''publish''. \<not> is_sep h c"
  by (simp add: is_sep_def)

lemma is_sep_slash: "is_sep h CHR ''/''"
  by (simp add: is_sep_def)

lemma is_sep_zip: "\<forall>c \<in> set ''.zip''. \<not> is_sep h c"
  by (simp add: is_sep_def)

lemma split_publish:
  "split_path (is_sep h) [] (''publish'' @ ''/'' @ s) = ''publish'' # split_path (is_sep h) [] s"
  using split_path_cut [OF is_sep_publish is_sep_slash, of h "[]" s] by simp

lemma archive_path_split:
  "archive_path h = ''publish''
     # filter (\<lambda>c. c \<noteq> [] \<and> c \<noteq> ''.'') (split_path (is_sep h) [] (archive_base h @ ''.zip''))"
proof -
  have "(''publish'' @ ''/'' @ archive_base h) @ ''.zip''
          = ''publish'' @ ''/'' @ (archive_base h @ ''.zip'')"
    by (simp only: append_assoc)
  then show ?thesis
    unfolding archive_path_def components_def os_path_join_def
    by (simp only: split_publish filter.simps) simp
qed

lemma os_path_dirname_cut:
  assumes "\<forall>c \<in> set a. \<not> sep c" and "sep x"
  shows "os_path_dirname sep (a @ x # s) = a \<or> (\<exists>t. os_path_dirname sep (a @ x # s) = a @ x # t)"
proof -
  let ?u = "dropWhile (\<lambda>c. \<not> sep c) (rev s)"
  have a: "dropWhile sep (rev a) = rev a"
    using assms(1) by (cases "rev a") auto
  have "dropWhile (\<lambda>c. \<not> sep c) (rev s @ x # rev a) = ?u @ x # rev a"
    using assms(2) by (intro dropWhile_append3) simp
  then have 1: "dropWhile (\<lambda>c. \<not> sep c) (rev (a @ x # s)) = ?u @ x # rev a"
    by simp
  show ?thesis
  proof (cases "\<forall>c \<in> set ?u. sep c")
    case True
    then have "dropWhile sep (?u @ x # rev a) = dropWhile sep (x # rev a)"
      by (intro dropWhile_append2) blast
    with assms(2) a have "dropWhile sep (?u @ x # rev a) = rev a" by simp
    then show ?thesis unfolding os_path_dirname_def 1 by simp
  next
    case False
    then obtain c where "c \<in> set ?u" "\<not> sep c" by blast
    then have "dropWhile sep (?u @ x # rev a) = dropWhile sep ?u @ x # rev a"
      by (rule dropWhile_append1)
    then show ?thesis unfolding os_path_dirname_def 1 by simp
  qed
qed

lemma archive_path_shape: "\<exists>rest. archive_path h = ''publish'' # rest \<and> rest \<noteq> []"
proof -
  let ?parts = "split_path (is_sep h) [] (archive_base h)"
  let ?ok = "\<lambda>c. c \<noteq> [] \<and> c \<noteq> ''.''"
  have tail: "split_path (is_sep h) [] (archive_base h @ ''.zip'')
                = butlast ?parts @ [last ?parts @ ''.zip'']"
    using is_sep_zip by (rule split_path_last)
  have keep: "?ok (last ?parts @ ''.zip'')"
    by (cases "last ?parts") simp_all
  have "filter ?ok (butlast ?parts @ [last ?parts @ ''.zip''])
          = filter ?ok (butlast ?parts) @ [last ?parts @ ''.zip'']"
    using keep by simp
  then have "filter ?ok (split_path (is_sep h) [] (archive_base h @ ''.zip'')) \<noteq> []"
    unfolding tail by (simp only: append_is_Nil_conv) simp
  then show ?thesis unfolding archive_path_split by blast
qed

lemma archive_dir_shape:
  "os_path_dirname (is_sep h) (os_path_join ''publish'' (archive_base h)) \<noteq> []"
  "\<exists>rest. components (is_sep h)
            (os_path_dirname (is_sep h) (os_path_join ''publish'' (archive_base h)))
      = ''publish'' # rest"
proof -
  let ?d = "os_path_dirname (is_sep h) (os_path_join ''publish'' (archive_base h))"
  have join: "os_path_join ''publish'' (archive_base h) = ''publish'' @ CHR ''/'' # archive_base h"
    by (simp add: os_path_join_def)
  from os_path_dirname_cut [OF is_sep_publish is_sep_slash, of h "archive_base h"]
  consider (top) "?d = ''publish''" | (deep) t where "?d = ''publish'' @ CHR ''/'' # t"
    unfolding join by blast
  then have "?d \<noteq> [] \<and> (\<exists>rest. components (is_sep h) ?d = ''publish'' # rest)"
  proof cases
    case top
    then show ?thesis
      by (simp add: components_def split_path_plain [OF is_sep_publish, of h "[]", simplified])
  next
    case deep
    have "split_path (is_sep h) [] (''publish'' @ CHR ''/'' # t)
            = ([] @ ''publish'') # split_path (is_sep h) [] t"
      using is_sep_publish is_sep_slash by (rule split_path_cut)
    with deep show ?thesis by (simp add: components_def)
  qed
  then show "?d \<noteq> []" and "\<exists>rest. components (is_sep h) ?d = ''publish'' # rest"
    by blast+
qed

lemma plain_archive_base:
  assumes "plain_names h"
  shows "\<forall>c \<in> set (archive_base h). \<not> is_sep h c"
proof -
  from assms have m: "\<forall>c \<in> set (machine h). \<not> is_sep h c"
    and s: "\<forall>c \<in> set (system h). \<not> is_sep h c"
    by (simp_all add: plain_names_def list_all_iff)
  have lit: "\<forall>c \<in> set ''Skye-''. \<not> is_sep h c" "\<forall>c \<in> set ''macOS''. \<not> is_sep h c"
    by (simp_all add: is_sep_def)
  have p: "\<forall>c \<in> set (PLATFORM h). \<not> is_sep h c"
  proof (cases "system h = ''Darwin''")
    case True
    then have eq: "PLATFORM h = ''macOS''" by (simp add: PLATFORM_def)
    from lit(2) show ?thesis unfolding eq .
  next
    case False
    then have eq: "PLATFORM h = system h" by (simp add: PLATFORM_def)
    from s show ?thesis unfolding eq .
  qed
  from m p lit(1) show ?thesis
    by (auto simp: archive_base_def ARCH_def)
qed

lemma plain_archive_path:
  assumes "plain_names h"
  shows "archive_path h = [''publish'', archive_file h]"
proof -
  from plain_archive_base [OF assms] is_sep_zip [of h]
  have "\<forall>c \<in> set (archive_base h @ ''.zip''). \<not> is_sep h c" by auto
  then have "split_path (is_sep h) [] (archive_base h @ ''.zip'') = [[] @ archive_base h @ ''.zip'']"
    by (rule split_path_plain)
  then show ?thesis
    unfolding archive_path_split by (simp add: archive_file_def)
qed


subsection \<open>Listings and the members of an archive\<close>

lemma os_scandir_set: "set (os_scandir rank es) = set es"
  by (simp add: os_scandir_def)

lemma os_scandir_mset: "mset (os_scandir rank es) = mset es"
  by (simp add: os_scandir_def)

lemma os_scandir_idem: "os_scandir rank (os_scandir rank es) = os_scandir rank es"
  unfolding os_scandir_def by (rule sort_key_id_if_sorted) simp

lemma insort_key_map_snd:
  "insort_key (\<lambda>e. rank (fst e)) (n, g x) (map (\<lambda>(n, x). (n, g x)) l)
     = map (\<lambda>(n, x). (n, g x)) (insort_key (\<lambda>e. rank (fst e)) (n, x) l)"
  by (induction l) auto

lemma os_scandir_map_snd:
  "os_scandir rank (map (\<lambda>(n, x). (n, g x)) l) = map (\<lambda>(n, x). (n, g x)) (os_scandir rank l)"
  unfolding os_scandir_def
  by (induction l) (auto simp: insort_key_map_snd)

text \<open>The listing of a copy is the copy of the listing.\<close>

lemma os_scandir_copy:
  "os_scandir rank (map (\<lambda>(n, x). (n, g x)) (os_scandir rank es))
     = map (\<lambda>(n, x). (n, g x)) (os_scandir rank es)"
  by (simp add: os_scandir_map_snd os_scandir_idem)

lemma zip_walk_copy:
  "zip_walk rank pre (map (\<lambda>(n, x). (n, copy_node rank x)) (os_scandir rank es))
     = zip_walk rank pre es"
proof (induction rank pre es rule: zip_walk.induct)
  case (1 rank pre es)
  let ?L = "os_scandir rank es"
  let ?cp = "\<lambda>(n, x). (n, copy_node rank x)"
  let ?names = "\<lambda>(n, x). case x of Dir ds \<Rightarrow> [n] | File c \<Rightarrow> []"
  let ?files = "\<lambda>(n, x). case x of File c \<Rightarrow> [(pre @ [n], Some c)] | Dir ds \<Rightarrow> []"
  let ?below = "\<lambda>(n, x). case x of Dir ds \<Rightarrow> zip_walk rank (pre @ [n]) ds | File c \<Rightarrow> []"
  have names: "map ?names (map ?cp ?L) = map ?names ?L"
    by (auto split: node.splits)
  have files: "map ?files (map ?cp ?L) = map ?files ?L"
    by (auto split: node.splits)
  have below: "map ?below (map ?cp ?L) = map ?below ?L"
  proof (simp only: map_map, rule map_cong [OF refl])
    fix e assume mem: "e \<in> set ?L"
    obtain n x where e: "e = (n, x)" by (cases e)
    show "(?below \<circ> ?cp) e = ?below e"
    proof (cases x)
      case (File c)
      with e show ?thesis by simp
    next
      case (Dir ds)
      from "1.IH" [OF mem e [symmetric] Dir] Dir e show ?thesis by simp
    qed
  qed
  have "zip_walk rank pre (map ?cp ?L)
          = map (\<lambda>n. (pre @ [n], None)) (sort (concat (map ?names (map ?cp ?L))))
            @ concat (map ?files (map ?cp ?L)) @ concat (map ?below (map ?cp ?L))"
    by (subst zip_walk.simps) (simp only: os_scandir_copy)
  also have "\<dots> = zip_walk rank pre es"
    unfolding names files below by (rule zip_walk.simps [symmetric])
  finally show ?case .
qed

lemma zip_walk_prefix:
  "(p, e) \<in> set (zip_walk rank pre es) \<Longrightarrow> \<exists>q. q \<noteq> [] \<and> p = pre @ q"
proof (induction rank pre es arbitrary: p e rule: zip_walk.induct)
  case (1 rank pre es)
  from "1.prems" consider
      (subdir) n where "p = pre @ [n]"
    | (leaf) n where "p = pre @ [n]"
    | (deep) n ds where "(n, Dir ds) \<in> set (os_scandir rank es)"
        "(p, e) \<in> set (zip_walk rank (pre @ [n]) ds)"
    by (subst (asm) zip_walk.simps) (auto split: node.splits)
  then show ?case
  proof cases
    case deep
    from "1.IH" [OF deep(1) refl refl deep(2)] show ?thesis by auto
  qed auto
qed

lemma zip_walk_deep:
  "(p, e) \<in> set (zip_walk rank [x] es) \<Longrightarrow> hd p = x \<and> 2 \<le> length p"
  by (drule zip_walk_prefix) (auto simp: Suc_le_eq)

lemma zip_walk_file:
  "lookup es q = Some (File c) \<Longrightarrow> (pre @ q, Some c) \<in> set (zip_walk rank pre es)"
proof (induction q arbitrary: pre es)
  case Nil
  then show ?case by simp
next
  case (Cons x xs)
  show ?case
  proof (cases "map_of es x")
    case None
    with Cons.prems show ?thesis by simp
  next
    case (Some n)
    then have "(x, n) \<in> set es" by (rule map_of_SomeD)
    then have mem: "(x, n) \<in> set (os_scandir rank es)" by (simp add: os_scandir_set)
    show ?thesis
    proof (cases n)
      case (File c')
      with Cons.prems Some have "xs = []" "c' = c" by (auto split: if_splits)
      with mem File show ?thesis
        by (subst zip_walk.simps) force
    next
      case (Dir ds)
      with Cons.prems Some have "lookup ds xs = Some (File c)" by simp
      from Cons.IH [OF this, of "pre @ [x]"] mem Dir show ?thesis
        by (subst zip_walk.simps) force
    qed
  qed
qed

lemma zip_walk_dir:
  "lookup es q = Some (Dir d) \<Longrightarrow> q \<noteq> [] \<Longrightarrow> (pre @ q, None) \<in> set (zip_walk rank pre es)"
proof (induction q arbitrary: pre es)
  case Nil
  then show ?case by simp
next
  case (Cons x xs)
  show ?case
  proof (cases "map_of es x")
    case None
    with Cons.prems show ?thesis by simp
  next
    case (Some n)
    then have "(x, n) \<in> set es" by (rule map_of_SomeD)
    then have mem: "(x, n) \<in> set (os_scandir rank es)" by (simp add: os_scandir_set)
    show ?thesis
    proof (cases n)
      case (File c')
      with Cons.prems Some show ?thesis by (auto split: if_splits)
    next
      case (Dir ds)
      with Cons.prems Some have sub: "lookup ds xs = Some (Dir d)" by simp
      show ?thesis
      proof (cases "xs = []")
        case True
        with mem Dir show ?thesis
          by (subst zip_walk.simps) force
      next
        case False
        from Cons.IH [OF sub False, of "pre @ [x]"] mem Dir show ?thesis
          by (subst zip_walk.simps) force
      qed
    qed
  qed
qed

lemma mset_concat_map:
  "mset (concat (map f l)) = sum_mset (image_mset (\<lambda>x. mset (f x)) (mset l))"
  by (induction l) simp_all

lemma zip_walk_mset:
  "mset (zip_walk rank pre es) =
     image_mset (\<lambda>n. (pre @ [n], None))
       (sum_mset (image_mset (\<lambda>(n, x). case x of Dir ds \<Rightarrow> {#n#} | File c \<Rightarrow> {#}) (mset es)))
   + sum_mset (image_mset (\<lambda>(n, x). case x of File c \<Rightarrow> {#(pre @ [n], Some c)#} | Dir ds \<Rightarrow> {#})
                 (mset es))
   + sum_mset (image_mset (\<lambda>(n, x). case x of Dir ds \<Rightarrow> mset (zip_walk rank (pre @ [n]) ds)
                                        | File c \<Rightarrow> {#}) (mset es))"
proof -
  have 1: "(\<lambda>x. mset (case x of (n, x) \<Rightarrow> case x of Dir ds \<Rightarrow> [n] | File c \<Rightarrow> []))
          = (\<lambda>(n, x). case x of Dir ds \<Rightarrow> {#n#} | File c \<Rightarrow> {#})"
    by (auto simp: fun_eq_iff split: node.splits)
  have 2: "(\<lambda>x. mset (case x of (n, x) \<Rightarrow> case x of File c \<Rightarrow> [(pre @ [n], Some c)] | Dir ds \<Rightarrow> []))
          = (\<lambda>(n, x). case x of File c \<Rightarrow> {#(pre @ [n], Some c)#} | Dir ds \<Rightarrow> {#})"
    by (auto simp: fun_eq_iff split: node.splits)
  have 3: "(\<lambda>x. mset (case x of (n, x) \<Rightarrow> case x of Dir ds \<Rightarrow> zip_walk rank (pre @ [n]) ds
                                              | File c \<Rightarrow> []))
          = (\<lambda>(n, x). case x of Dir ds \<Rightarrow> mset (zip_walk rank (pre @ [n]) ds) | File c \<Rightarrow> {#})"
    by (auto simp: fun_eq_iff split: node.splits)
  show ?thesis
    by (subst zip_walk.simps)
       (simp only: mset_append mset_map mset_sort mset_concat_map os_scandir_mset 1 2 3
          ac_simps)
qed

lemma zip_walk_staging:
  "mset (zip_walk rank [] (staging rank h bin lic es)) =
     {#([''lib''], None), ([binary_name h], Some bin), ([''LICENSE''], Some lic)#}
     + mset (zip_walk rank [''lib''] es)"
  by (subst zip_walk_mset) (simp add: staging_def zip_walk_copy)

subsection \<open>The library calls at the paths the script uses\<close>

lemma os_mkdir_top:
  "os_mkdir fs [x] =
     (if map_of fs x = None then Inr (AList.update x (Dir []) fs) else Inl FileExistsError)"
  by (auto simp: os_mkdir_def dirname_def split: option.splits node.splits)

lemma shutil_rmtree_top:
  "shutil_rmtree fs [x] =
     (case map_of fs x of
        None \<Rightarrow> Inl FileNotFoundError
      | Some (File c) \<Rightarrow> Inl NotADirectoryError
      | Some (Dir ds) \<Rightarrow> Inr (AList.delete x fs))"
  by (auto simp: shutil_rmtree_def lookup_single split: option.splits node.splits)

lemma shutil_copy_into:
  assumes "map_of fs d = Some (Dir ds)" and "src \<noteq> []" and "hd src \<noteq> d"
  shows "shutil_copy fs src [d] =
     (case lookup fs src of
        None \<Rightarrow> Inl (missing_error fs src)
      | Some (Dir es) \<Rightarrow> Inl IsADirectoryError
      | Some (File c) \<Rightarrow>
          (case map_of ds (last src) of
             Some (Dir es) \<Rightarrow> Inl IsADirectoryError
           | _ \<Rightarrow> Inr (AList.update d (Dir (AList.update (last src) (File c) ds)) fs)))"
proof -
  have dst: "(case lookup fs [d] of Some (Dir x) \<Rightarrow> [d] @ basename src | _ \<Rightarrow> [d]) = [d, last src]"
    using assms by (simp add: basename_def)
  have ne: "src \<noteq> [d, last src]" using assms by (cases src) auto
  have lk: "lookup fs [d, last src] = map_of ds (last src)"
    using assms(1) by (auto split: option.splits node.splits)
  show ?thesis
    unfolding shutil_copy_def dst shutil_copyfile_def write_file_def
    using ne assms(1) lk
    by (auto simp: dirname_def split: option.splits node.splits)
qed

lemma shutil_copytree_into:
  assumes "map_of fs d = Some (Dir ds)" and "x \<noteq> d"
  shows "shutil_copytree rank fs [x] [d, y] =
     (case map_of fs x of
        None \<Rightarrow> Inl FileNotFoundError
      | Some (File c) \<Rightarrow> Inl NotADirectoryError
      | Some (Dir es) \<Rightarrow>
          (case map_of ds y of
             Some n \<Rightarrow> Inl FileExistsError
           | None \<Rightarrow>
               Inr (AList.update d (Dir (AList.update y (copy_node rank (Dir es)) ds)) fs)))"
  using assms
  by (auto simp: shutil_copytree_def lookup_single update_conv' simp del: copy_node.simps
           split: option.splits node.splits)

text \<open>The archive step at the path the script gives it: what it leaves alone, where the
  archive is, and what it does on a host with plain names.\<close>

lemma shutil_make_archive_frame:
  assumes "shutil_make_archive (is_sep h) rank fs (os_path_join ''publish'' (archive_base h)) r
             = Inr fs'"
    and "x \<noteq> ''publish''"
  shows "map_of fs' x = map_of fs x"
proof -
  let ?dir = "components (is_sep h)
                (os_path_dirname (is_sep h) (os_path_join ''publish'' (archive_base h)))"
  obtain rest where dir: "?dir = ''publish'' # rest"
    using archive_dir_shape(2) [of h] by blast
  obtain rest' where zip: "archive_path h = ''publish'' # rest'"
    using archive_path_shape [of h] by blast
  from assms(1) obtain fs1 where
    mk: "fs1 = fs \<or> os_makedirs fs ?dir = Inr fs1"
    and wr: "write_file fs1 (archive_path h) (Packed (zip_walk rank [] (case lookup fs r of Some (Dir rs) \<Rightarrow> rs | _ \<Rightarrow> []))) = Inr fs'"
    by (auto simp: shutil_make_archive_def archive_path_def
             split: option.splits node.splits sum.splits if_splits)
  from mk have "map_of fs1 x = map_of fs x"
    using os_makedirs_frame [of fs "''publish''" rest fs1 x] assms(2) dir by auto
  moreover from wr have "map_of fs' x = map_of fs1 x"
    using write_file_frame [of fs1 "''publish''" rest' _ fs' x] assms(2) zip by auto
  ultimately show ?thesis by simp
qed

lemma shutil_make_archive_lookup:
  assumes "shutil_make_archive (is_sep h) rank fs (os_path_join ''publish'' (archive_base h)) r
             = Inr fs'"
  shows "\<exists>rs. lookup fs r = Some (Dir rs)
            \<and> lookup fs' (archive_path h) = Some (File (Packed (zip_walk rank [] rs)))"
proof -
  from assms obtain rs fs1 where rs: "lookup fs r = Some (Dir rs)"
    and wr: "write_file fs1 (archive_path h) (Packed (zip_walk rank [] rs)) = Inr fs'"
    by (auto simp: shutil_make_archive_def archive_path_def
             split: option.splits node.splits sum.splits if_splits)
  from write_file_lookup [OF wr] rs show ?thesis by simp
qed


subsection \<open>What \<^verbatim>\<open>pack\<close> computes\<close>

lemma binary_name_neq [simp]:
  "binary_name h \<noteq> ''LICENSE''" "binary_name h \<noteq> ''lib''" "binary_name h \<noteq> ''tmp''"
  "''LICENSE'' \<noteq> binary_name h" "''lib'' \<noteq> binary_name h" "''tmp'' \<noteq> binary_name h"
  by (simp_all add: binary_name_def)

lemma pack_build_failed:
  "os_system cmd s = (code, b) \<Longrightarrow> code \<noteq> 0 \<Longrightarrow> pack os_system rank h cmd s = (SysExit 1, b)"
  by (simp add: pack_def)

lemma pack_tmp_exists:
  "os_system cmd s = (0, b) \<Longrightarrow> map_of b ''tmp'' = Some n \<Longrightarrow>
     pack os_system rank h cmd s = (Raised FileExistsError, b)"
  by (simp add: pack_def os_mkdir_top)


text \<open>The run of \<^verbatim>\<open>pack\<close> after a successful build, \<^verbatim>\<open>tmp\<close> being free: the three
  copies, then the archive step on the tree with the staging directory, then the removal
  of the staging directory.\<close>

lemma pack_built:
  assumes build: "os_system cmd s = (0, b)" and fresh: "map_of b ''tmp'' = None"
  shows "pack os_system rank h cmd s =
    (case lookup b [''target'', ''release'', binary_name h] of
       None \<Rightarrow>
         (Raised (missing_error b [''target'', ''release'', binary_name h]),
          AList.update ''tmp'' (Dir []) b)
     | Some (Dir d) \<Rightarrow> (Raised IsADirectoryError, AList.update ''tmp'' (Dir []) b)
     | Some (File bin) \<Rightarrow>
    (case map_of b ''LICENSE'' of
       None \<Rightarrow> (Raised FileNotFoundError, AList.update ''tmp'' (Dir [(binary_name h, File bin)]) b)
     | Some (Dir d) \<Rightarrow>
         (Raised IsADirectoryError, AList.update ''tmp'' (Dir [(binary_name h, File bin)]) b)
     | Some (File lic) \<Rightarrow>
    (case map_of b ''lib'' of
       None \<Rightarrow>
         (Raised FileNotFoundError,
          AList.update ''tmp'' (Dir [(binary_name h, File bin), (''LICENSE'', File lic)]) b)
     | Some (File c) \<Rightarrow>
         (Raised NotADirectoryError,
          AList.update ''tmp'' (Dir [(binary_name h, File bin), (''LICENSE'', File lic)]) b)
     | Some (Dir es) \<Rightarrow>
    (case shutil_make_archive (is_sep h) rank
            (AList.update ''tmp'' (Dir (staging rank h bin lic es)) b)
            (os_path_join ''publish'' (archive_base h)) [''tmp''] of
       Inl e \<Rightarrow> (Raised e, AList.update ''tmp'' (Dir (staging rank h bin lic es)) b)
     | Inr fs5 \<Rightarrow> (Finished, AList.delete ''tmp'' fs5)))))"
proof -
  let ?b1 = "AList.update ''tmp'' (Dir []) b"
  have mk: "os_mkdir b [''tmp''] = Inr ?b1"
    using fresh by (simp add: os_mkdir_top)
  have t1: "map_of ?b1 ''tmp'' = Some (Dir [])" by (simp add: update_conv')
  have l1: "lookup ?b1 [''target'', ''release'', binary_name h]
              = lookup b [''target'', ''release'', binary_name h]"
    by (simp add: update_conv')
  have m1: "missing_error ?b1 [''target'', ''release'', binary_name h]
              = missing_error b [''target'', ''release'', binary_name h]"
    by (simp add: update_conv')
  note c1 = shutil_copy_into [OF t1, of "[''target'', ''release'', binary_name h]",
      unfolded l1 m1, simplified]
  have rm: "shutil_rmtree fs5 [''tmp''] = Inr (AList.delete ''tmp'' fs5)"
    if "shutil_make_archive (is_sep h) rank
          (AList.update ''tmp'' (Dir (staging rank h bin lic es)) b)
          (os_path_join ''publish'' (archive_base h)) [''tmp''] = Inr fs5"
    for fs5 bin lic es
    using shutil_make_archive_frame [OF that, of "''tmp''"]
    by (simp add: shutil_rmtree_top update_conv')
  have rest: "(case shutil_make_archive (is_sep h) rank
                  (AList.update ''tmp'' (Dir (staging rank h bin lic es)) b)
                  (os_path_join ''publish'' (archive_base h)) [''tmp''] of
          Inl e \<Rightarrow> (Raised e, AList.update ''tmp'' (Dir (staging rank h bin lic es)) b)
        | Inr fs5 \<Rightarrow>
        (case shutil_rmtree fs5 [''tmp''] of
          Inl e \<Rightarrow> (Raised e, fs5)
        | Inr fs6 \<Rightarrow> (Finished, fs6)))
      = (case shutil_make_archive (is_sep h) rank
                  (AList.update ''tmp'' (Dir (staging rank h bin lic es)) b)
                  (os_path_join ''publish'' (archive_base h)) [''tmp''] of
          Inl e \<Rightarrow> (Raised e, AList.update ''tmp'' (Dir (staging rank h bin lic es)) b)
        | Inr fs5 \<Rightarrow> (Finished, AList.delete ''tmp'' fs5))"
    for bin lic es
    using rm [of bin lic es] by (auto split: sum.splits)
  show ?thesis
    unfolding pack_def build
    apply (simp add: mk c1 split: option.splits node.splits del: copy_node.simps)
    apply (intro allI impI conjI)
    apply (simp_all add: shutil_copy_into [where ds = "[(binary_name h, File bin)]" for bin]
        shutil_copytree_into [where ds = "[(binary_name h, File bin), (''LICENSE'', File lic)]" for bin lic]
        update_conv' lookup_single
        split: option.splits node.splits del: copy_node.simps)
    apply (simp_all only: rest [unfolded staging_def] staging_def)
    done
qed

lemma pack_Finished:
  assumes "pack os_system rank h cmd s = (Finished, s')"
  obtains b bin lic es fs5 where
    "os_system cmd s = (0, b)"
    "map_of b ''tmp'' = None"
    "lookup b [''target'', ''release'', binary_name h] = Some (File bin)"
    "map_of b ''LICENSE'' = Some (File lic)"
    "map_of b ''lib'' = Some (Dir es)"
    "shutil_make_archive (is_sep h) rank
       (AList.update ''tmp'' (Dir (staging rank h bin lic es)) b)
       (os_path_join ''publish'' (archive_base h)) [''tmp''] = Inr fs5"
    "s' = AList.delete ''tmp'' fs5"
proof -
  obtain code b where build: "os_system cmd s = (code, b)" by (cases "os_system cmd s")
  have code: "code = 0"
    using assms pack_build_failed [of os_system cmd s code b rank h] build by auto
  have fresh: "map_of b ''tmp'' = None"
    using assms pack_tmp_exists [of os_system cmd s b _ rank h] build code
    by (cases "map_of b ''tmp''") auto
  from assms pack_built [of os_system cmd s b rank h] that [of b] build code fresh
  show thesis
    by (auto split: option.splits node.splits sum.splits)
qed

text \<open>What a finished run of \<^verbatim>\<open>pack\<close> leaves: the archive at its path, holding the walk of
  the staging directory; no \<^verbatim>\<open>tmp\<close>; everything but \<^verbatim>\<open>publish\<close> and \<^verbatim>\<open>tmp\<close> as the
  build left it.\<close>

lemma pack_Finished_tree:
  assumes "pack os_system rank h cmd s = (Finished, s')"
  obtains b bin lic es where
    "os_system cmd s = (0, b)"
    "map_of b ''tmp'' = None"
    "lookup b [''target'', ''release'', binary_name h] = Some (File bin)"
    "map_of b ''LICENSE'' = Some (File lic)"
    "map_of b ''lib'' = Some (Dir es)"
    "lookup s' (archive_path h)
       = Some (File (Packed (zip_walk rank [] (staging rank h bin lic es))))"
    "map_of s' ''tmp'' = None"
    "\<And>x. x \<noteq> ''publish'' \<Longrightarrow> x \<noteq> ''tmp'' \<Longrightarrow> map_of s' x = map_of b x"
proof -
  from assms show thesis
  proof (rule pack_Finished)
    fix b bin lic es fs5
    let ?fs4 = "AList.update ''tmp'' (Dir (staging rank h bin lic es)) b"
    assume build: "os_system cmd s = (0, b)" and fresh: "map_of b ''tmp'' = None"
      and inputs: "lookup b [''target'', ''release'', binary_name h] = Some (File bin)"
        "map_of b ''LICENSE'' = Some (File lic)" "map_of b ''lib'' = Some (Dir es)"
      and arch: "shutil_make_archive (is_sep h) rank ?fs4
                   (os_path_join ''publish'' (archive_base h)) [''tmp''] = Inr fs5"
      and s': "s' = AList.delete ''tmp'' fs5"
    obtain rest where path: "archive_path h = ''publish'' # rest"
      using archive_path_shape [of h] by blast
    from shutil_make_archive_lookup [OF arch]
    have "lookup fs5 (archive_path h)
            = Some (File (Packed (zip_walk rank [] (staging rank h bin lic es))))"
      by (simp add: update_conv')
    then have at: "lookup s' (archive_path h)
            = Some (File (Packed (zip_walk rank [] (staging rank h bin lic es))))"
      unfolding s' path by simp
    have gone: "map_of s' ''tmp'' = None" by (simp add: s' delete_conv')
    have frame: "map_of s' x = map_of b x" if "x \<noteq> ''publish''" "x \<noteq> ''tmp''" for x
      using shutil_make_archive_frame [OF arch that(1)] that(2)
      by (simp add: s' update_conv')
    from build fresh inputs at gone frame show thesis by (rule that)
  qed
qed


lemma pack_SysExit:
  "fst (pack os_system rank h cmd s) = SysExit k \<longleftrightarrow> fst (os_system cmd s) \<noteq> 0 \<and> k = 1"
proof (cases "os_system cmd s")
  case (Pair code b)
  show ?thesis
  proof (cases "code = 0")
    case False
    with Pair pack_build_failed [of os_system cmd s code b rank h] show ?thesis by auto
  next
    case True
    show ?thesis
    proof (cases "map_of b ''tmp''")
      case (Some n)
      with Pair True pack_tmp_exists [of os_system cmd s b n rank h] show ?thesis by simp
    next
      case None
      with Pair True pack_built [of os_system cmd s b rank h] show ?thesis
        by (auto split: option.splits node.splits sum.splits)
    qed
  qed
qed


lemma pack_Raised:
  assumes "os_system cmd s = (0, b)"
    and "lookup b [''target'', ''release'', binary_name h] = None
         \<or> map_of b ''LICENSE'' = None \<or> map_of b ''lib'' = None"
  shows "\<exists>e. fst (pack os_system rank h cmd s) = Raised e"
proof (cases "map_of b ''tmp''")
  case (Some n)
  with assms pack_tmp_exists [of os_system cmd s b n rank h] show ?thesis by simp
next
  case None
  with assms pack_built [of os_system cmd s b rank h] show ?thesis
    by (auto split: option.splits node.splits)
qed

subsection \<open>The module body\<close>

lemma main_publish_file:
  "is_file fs [''publish''] \<Longrightarrow> main os_system rank h fs = (Raised NotADirectoryError, fs)"
  by (auto simp: main_def is_file_def os_path_exists_def shutil_rmtree_top lookup_single
           split: option.splits node.splits)

lemma main_pack:
  "\<not> is_file fs [''publish''] \<Longrightarrow>
     main os_system rank h fs = pack os_system rank h ''cargo build --release'' (fresh_publish fs)"
  by (auto simp: main_def is_file_def os_path_exists_def shutil_rmtree_top os_mkdir_top
        lookup_single fresh_publish_def delete_absent delete_conv'
           split: option.splits node.splits)

lemma main_Finished:
  assumes "main os_system rank h fs = (Finished, fs')"
  shows "\<not> is_file fs [''publish'']"
    and "pack os_system rank h ''cargo build --release'' (fresh_publish fs) = (Finished, fs')"
proof -
  show nf: "\<not> is_file fs [''publish'']"
    using assms main_publish_file [of fs os_system rank h] by auto
  show "pack os_system rank h ''cargo build --release'' (fresh_publish fs) = (Finished, fs')"
    using assms main_pack [OF nf, of os_system rank h] by simp
qed

lemma fresh_publish_lookup: "map_of (fresh_publish fs) ''publish'' = Some (Dir [])"
  by (simp add: fresh_publish_def update_conv')

lemma fresh_publish_frame: "x \<noteq> ''publish'' \<Longrightarrow> map_of (fresh_publish fs) x = map_of fs x"
  by (simp add: fresh_publish_def update_conv')

section \<open>The claims\<close>

text \<open>
  C1. When the build command returns a status other than zero, the module body being past
  the reset of \<^verbatim>\<open>publish\<close>, the process leaves through \<^verbatim>\<open>sys.exit(1)\<close> and the
  working directory is the one the build command left: the script takes no step after the
  check. For a build command that leaves \<^verbatim>\<open>publish\<close> and \<^verbatim>\<open>tmp\<close> alone,
  \<^verbatim>\<open>publish\<close> exists and is empty, and \<^verbatim>\<open>tmp\<close> is what it was before the run (no
  staging directory is created).
\<close>

theorem build_failure_exits:
  assumes "\<not> is_file fs [''publish'']"
    and "os_system ''cargo build --release'' (fresh_publish fs) = (code, b)"
    and "code \<noteq> 0"
    and "map_of b ''publish'' = map_of (fresh_publish fs) ''publish''"
    and "map_of b ''tmp'' = map_of (fresh_publish fs) ''tmp''"
  shows "main os_system rank h fs = (SysExit 1, b)
       \<and> lookup b [''publish''] = Some (Dir [])
       \<and> lookup b [''tmp''] = lookup fs [''tmp'']"
proof -
  have "main os_system rank h fs = (SysExit 1, b)"
    using main_pack [OF assms(1), of os_system rank h]
      pack_build_failed [of os_system "''cargo build --release''" "fresh_publish fs" code b rank h]
      assms(2,3)
    by simp
  moreover have "lookup b [''publish''] = Some (Dir [])"
    using assms(4) unfolding lookup_single by (simp add: fresh_publish_lookup)
  moreover have "lookup b [''tmp''] = lookup fs [''tmp'']"
    using assms(5) unfolding lookup_single by (simp add: fresh_publish_frame)
  ultimately show ?thesis by simp
qed

theorem build_failure_exits_witness:
  "\<not> is_file sample_tree [''publish'']
   \<and> cargo_fail ''cargo build --release'' (fresh_publish sample_tree)
       = (512, fresh_publish sample_tree)
   \<and> main cargo_fail by_initial linux_host sample_tree = (SysExit 1, fresh_publish sample_tree)
   \<and> lookup (fresh_publish sample_tree) [''publish''] = Some (Dir [])
   \<and> lookup (fresh_publish sample_tree) [''tmp''] = None
   \<and> lookup sample_tree [''publish''] = Some (Dir [(''Skye-old.zip'', File (Packed []))])"
proof -
  have a: "\<not> is_file sample_tree [''publish'']" by code_simp
  have b: "cargo_fail ''cargo build --release'' (fresh_publish sample_tree)
             = (512, fresh_publish sample_tree)"
    by (simp add: cargo_fail_def)
  have c: "lookup sample_tree [''tmp''] = None" by code_simp
  have d: "lookup sample_tree [''publish''] = Some (Dir [(''Skye-old.zip'', File (Packed []))])"
    by code_simp
  from build_failure_exits
    [of sample_tree cargo_fail 512 "fresh_publish sample_tree" by_initial linux_host] a b c d
  show ?thesis by simp
qed

text \<open>
  C2. A run that finishes on a host whose platform is not \<^verbatim>\<open>Windows\<close>, with the file
  \<^verbatim>\<open>target/release/skye\<close>, the file \<^verbatim>\<open>LICENSE\<close> and the directory \<^verbatim>\<open>lib\<close> in
  place after the build, writes an archive whose members are, in whatever order the file
  system lists them, \<^verbatim>\<open>lib/\<close>, \<^verbatim>\<open>skye\<close>, \<^verbatim>\<open>LICENSE\<close> and the walk of \<^verbatim>\<open>lib\<close>
  below \<^verbatim>\<open>lib/\<close>. The members at top level are exactly these three, every member path
  starts with one of the three names (so none starts with \<^verbatim>\<open>tmp\<close>), and every file
  and directory of \<^verbatim>\<open>lib\<close> is a member at the path it has in \<^verbatim>\<open>lib\<close>, a file with
  its content.
\<close>

theorem archive_contents:
  assumes "PLATFORM h \<noteq> ''Windows''"
    and "main os_system rank h fs = (Finished, fs')"
    and "snd (os_system ''cargo build --release'' (fresh_publish fs)) = b"
    and "lookup b [''target'', ''release'', ''skye''] = Some (File bin)"
    and "lookup b [''LICENSE''] = Some (File lic)"
    and "lookup b [''lib''] = Some (Dir es)"
  shows "\<exists>z. lookup fs' (archive_path h) = Some (File (Packed z))
       \<and> mset z = {#([''lib''], None), ([''skye''], Some bin), ([''LICENSE''], Some lic)#}
                  + mset (zip_walk rank [''lib''] es)
       \<and> mset (filter (\<lambda>p. length p = 1) (map fst z)) = {#[''lib''], [''skye''], [''LICENSE'']#}
       \<and> (\<forall>p \<in> set (map fst z). hd p \<in> {''lib'', ''skye'', ''LICENSE''})
       \<and> (\<forall>q c. lookup es q = Some (File c) \<longrightarrow> (''lib'' # q, Some c) \<in> set z)
       \<and> (\<forall>q d. lookup es q = Some (Dir d) \<longrightarrow> (''lib'' # q, None) \<in> set z)"
proof -
  have name: "binary_name h = ''skye''" using assms(1) by (simp add: binary_name_def)
  from main_Finished(2) [OF assms(2)] show ?thesis
  proof (rule pack_Finished_tree)
    fix b' bin' lic' es'
    assume build: "os_system ''cargo build --release'' (fresh_publish fs) = (0, b')"
      and inputs: "lookup b' [''target'', ''release'', binary_name h] = Some (File bin')"
        "map_of b' ''LICENSE'' = Some (File lic')" "map_of b' ''lib'' = Some (Dir es')"
      and at: "lookup fs' (archive_path h)
                 = Some (File (Packed (zip_walk rank [] (staging rank h bin' lic' es'))))"
    from build assms(3) have b: "b' = b" by simp
    from inputs assms(4-6) have same: "bin' = bin" "lic' = lic" "es' = es"
      unfolding b name lookup_single by simp_all
    let ?z = "zip_walk rank [] (staging rank h bin lic es)"
    let ?lib = "zip_walk rank [''lib''] es"
    have z: "mset ?z = {#([''lib''], None), ([''skye''], Some bin), ([''LICENSE''], Some lic)#}
                       + mset ?lib"
      using zip_walk_staging [of rank h bin lic es] by (simp add: name)
    have "set_mset (mset ?z)
            = set_mset ({#([''lib''], None), ([''skye''], Some bin), ([''LICENSE''], Some lic)#}
                        + mset ?lib)"
      by (simp only: z)
    then have setz: "set ?z = {([''lib''], None), ([''skye''], Some bin), ([''LICENSE''], Some lic)}
                       \<union> set ?lib"
      by simp
    have deep: "hd p = ''lib'' \<and> 2 \<le> length p" if "(p, e) \<in> set ?lib" for p e
      using that by (rule zip_walk_deep)
    have below: "hd p = ''lib'' \<and> length p \<noteq> 1" if "p \<in> fst ` set ?lib" for p
    proof -
      from that obtain e where "(p, e) \<in> set ?lib" by auto
      from deep [OF this] show ?thesis by simp
    qed
    have "filter_mset (\<lambda>p. length p = 1) (image_mset fst (mset ?lib)) = {#}"
      unfolding filter_mset_eq_mempty_iff using below by simp
    then have top: "mset (filter (\<lambda>p. length p = 1) (map fst ?z))
                      = {#[''lib''], [''skye''], [''LICENSE'']#}"
      by (simp add: z)
    have "set (map fst ?z) = {[''lib''], [''skye''], [''LICENSE'']} \<union> fst ` set ?lib"
      unfolding set_map setz by simp
    then have heads: "\<forall>p \<in> set (map fst ?z). hd p \<in> {''lib'', ''skye'', ''LICENSE''}"
      using below by auto
    have files: "\<forall>q c. lookup es q = Some (File c) \<longrightarrow> (''lib'' # q, Some c) \<in> set ?z"
      unfolding setz using zip_walk_file [of es _ _ "[''lib'']" rank] by simp
    have dirs: "\<forall>q d. lookup es q = Some (Dir d) \<longrightarrow> (''lib'' # q, None) \<in> set ?z"
    proof (intro allI impI)
      fix q d assume "lookup es q = Some (Dir d)"
      then show "(''lib'' # q, None) \<in> set ?z"
        unfolding setz using zip_walk_dir [of es q d "[''lib'']" rank] by (cases "q = []") simp_all
    qed
    from at have "lookup fs' (archive_path h) = Some (File (Packed ?z))"
      unfolding same .
    with z top heads files dirs show ?thesis
      by (intro exI [of _ ?z] conjI)
  qed
qed

theorem archive_contents_witness:
  "PLATFORM linux_host \<noteq> ''Windows''
   \<and> main cargo_ok by_initial linux_host sample_tree
       = (Finished, snd (main cargo_ok by_initial linux_host sample_tree))
   \<and> lookup (snd (cargo_ok ''cargo build --release'' (fresh_publish sample_tree)))
         [''target'', ''release'', ''skye''] = Some (File (Raw ''ELF''))
   \<and> lookup (snd (cargo_ok ''cargo build --release'' (fresh_publish sample_tree)))
         [''LICENSE''] = Some (File (Raw ''MIT''))
   \<and> lookup (snd (cargo_ok ''cargo build --release'' (fresh_publish sample_tree)))
         [''lib''] = Some (Dir sample_lib)
   \<and> (\<exists>z. lookup (snd (main cargo_ok by_initial linux_host sample_tree))
              [''publish'', ''Skye-x86_64-Linux.zip''] = Some (File (Packed z))
         \<and> mset z =
            {#([''lib''], None),
              ([''skye''], Some (Raw ''ELF'')),
              ([''LICENSE''], Some (Raw ''MIT'')),
              ([''lib'', ''sub''], None),
              ([''lib'', ''a.txt''], Some (Raw ''alpha'')),
              ([''lib'', ''sub'', ''b.txt''], Some (Raw ''beta''))#})"
proof -
  let ?b = "snd (cargo_ok ''cargo build --release'' (fresh_publish sample_tree))"
  let ?fs' = "snd (main cargo_ok by_initial linux_host sample_tree)"
  have p: "PLATFORM linux_host \<noteq> ''Windows''" by code_simp
  have run: "main cargo_ok by_initial linux_host sample_tree = (Finished, ?fs')" by code_simp
  have bin: "lookup ?b [''target'', ''release'', ''skye''] = Some (File (Raw ''ELF''))"
    by code_simp
  have lic: "lookup ?b [''LICENSE''] = Some (File (Raw ''MIT''))" by code_simp
  have lib: "lookup ?b [''lib''] = Some (Dir sample_lib)" by code_simp
  have path: "archive_path linux_host = [''publish'', ''Skye-x86_64-Linux.zip'']" by code_simp
  have walk: "zip_walk by_initial [''lib''] sample_lib =
     [([''lib'', ''sub''], None),
      ([''lib'', ''a.txt''], Some (Raw ''alpha'')),
      ([''lib'', ''sub'', ''b.txt''], Some (Raw ''beta''))]"
    by code_simp
  from archive_contents [OF p run refl bin lic lib]
  obtain z where "lookup ?fs' [''publish'', ''Skye-x86_64-Linux.zip''] = Some (File (Packed z))"
    and "mset z = {#([''lib''], None), ([''skye''], Some (Raw ''ELF'')),
                    ([''LICENSE''], Some (Raw ''MIT''))#}
                  + mset (zip_walk by_initial [''lib''] sample_lib)"
    unfolding path by blast
  then have "\<exists>z. lookup ?fs' [''publish'', ''Skye-x86_64-Linux.zip''] = Some (File (Packed z))
         \<and> mset z =
            {#([''lib''], None),
              ([''skye''], Some (Raw ''ELF'')),
              ([''LICENSE''], Some (Raw ''MIT'')),
              ([''lib'', ''sub''], None),
              ([''lib'', ''a.txt''], Some (Raw ''alpha'')),
              ([''lib'', ''sub'', ''b.txt''], Some (Raw ''beta''))#}"
    unfolding walk by (intro exI [of _ z]) simp
  with p run bin lic lib show ?thesis by blast
qed

text \<open>
  C3, as amended. On a host whose machine and system names hold no path separator, the
  archive of a run that finishes is the file \<^verbatim>\<open>publish/Skye-<machine>-<platform>.zip\<close>,
  the machine string taken as it is, the platform being the name of the operating system
  with \<^verbatim>\<open>Darwin\<close> rewritten to \<^verbatim>\<open>macOS\<close> and every other name unchanged. So a host
  \<^verbatim>\<open>Darwin\<close>/\<^verbatim>\<open>arm64\<close> gives \<^verbatim>\<open>Skye-arm64-macOS.zip\<close> and a host
  \<^verbatim>\<open>Linux\<close>/\<^verbatim>\<open>x86_64\<close> gives \<^verbatim>\<open>Skye-x86_64-Linux.zip\<close>.
\<close>

theorem archive_naming:
  assumes "main os_system rank h fs = (Finished, fs')"
    and "plain_names h"
  shows "\<exists>z. lookup fs'
           [''publish'',
            ''Skye-'' @ machine h @ ''-''
              @ (if system h = ''Darwin'' then ''macOS'' else system h) @ ''.zip'']
         = Some (File (Packed z))"
proof -
  have name: "archive_file h =
      ''Skye-'' @ machine h @ ''-''
        @ (if system h = ''Darwin'' then ''macOS'' else system h) @ ''.zip''"
    by (simp add: archive_file_def archive_base_def ARCH_def PLATFORM_def)
  from main_Finished(2) [OF assms(1)]
  have "\<exists>z. lookup fs' (archive_path h) = Some (File (Packed z))"
    by (rule pack_Finished_tree) blast
  then show ?thesis unfolding plain_archive_path [OF assms(2)] name .
qed

theorem archive_naming_witness:
  "main cargo_ok by_initial mac_host sample_tree
     = (Finished, snd (main cargo_ok by_initial mac_host sample_tree))
   \<and> plain_names mac_host
   \<and> (\<exists>z. lookup (snd (main cargo_ok by_initial mac_host sample_tree))
             [''publish'', ''Skye-arm64-macOS.zip''] = Some (File (Packed z)))
   \<and> main cargo_ok by_initial linux_host sample_tree
       = (Finished, snd (main cargo_ok by_initial linux_host sample_tree))
   \<and> plain_names linux_host
   \<and> (\<exists>z. lookup (snd (main cargo_ok by_initial linux_host sample_tree))
             [''publish'', ''Skye-x86_64-Linux.zip''] = Some (File (Packed z)))"
proof -
  have mac: "main cargo_ok by_initial mac_host sample_tree
               = (Finished, snd (main cargo_ok by_initial mac_host sample_tree))"
    by code_simp
  have linux: "main cargo_ok by_initial linux_host sample_tree
               = (Finished, snd (main cargo_ok by_initial linux_host sample_tree))"
    by code_simp
  have pm: "plain_names mac_host" by code_simp
  have pl: "plain_names linux_host" by code_simp
  from archive_naming [OF mac pm] archive_naming [OF linux pl] mac linux pm pl
  show ?thesis by (simp add: mac_host_def linux_host_def)
qed

text \<open>
  C3 as stated, for every host, fails: the machine string \<^verbatim>\<open>9000/800\<close> of an HP-UX
  host holds a separator, \<^verbatim>\<open>publish\<close> gets no entry \<^verbatim>\<open>Skye-9000/800-HP-UX.zip\<close>, and
  the archive is the file \<^verbatim>\<open>800-HP-UX.zip\<close> in the directory \<^verbatim>\<open>publish/Skye-9000\<close>.
\<close>

theorem archive_naming_counterexample:
  "fst (main cargo_ok by_initial hpux_host sample_tree) = Finished
   \<and> lookup (snd (main cargo_ok by_initial hpux_host sample_tree))
       [''publish'', ''Skye-9000/800-HP-UX.zip''] = None
   \<and> is_file (snd (main cargo_ok by_initial hpux_host sample_tree))
       [''publish'', ''Skye-9000'', ''800-HP-UX.zip'']"
  by code_simp

text \<open>
  C4. When the working directory already has an entry \<^verbatim>\<open>tmp\<close> (a file or a directory),
  the build succeeds and leaves that entry alone, the creation of the staging directory
  raises \<^verbatim>\<open>FileExistsError\<close>, which nobody catches; the working directory stays as the
  build left it, the old \<^verbatim>\<open>tmp\<close> entry unchanged.
\<close>

theorem staging_collision:
  assumes "\<not> is_file fs [''publish'']"
    and "map_of fs ''tmp'' = Some n"
    and "os_system ''cargo build --release'' (fresh_publish fs) = (0, b)"
    and "map_of b ''tmp'' = map_of (fresh_publish fs) ''tmp''"
  shows "main os_system rank h fs = (Raised FileExistsError, b) \<and> lookup b [''tmp''] = Some n"
proof -
  have tmp: "map_of b ''tmp'' = Some n"
    using assms(2,4) by (simp add: fresh_publish_frame)
  have "main os_system rank h fs = (Raised FileExistsError, b)"
    using main_pack [OF assms(1), of os_system rank h]
      pack_tmp_exists [of os_system "''cargo build --release''" "fresh_publish fs" b n rank h]
      assms(3) tmp
    by simp
  with tmp show ?thesis unfolding lookup_single by simp
qed

theorem staging_collision_witness:
  "\<not> is_file stale_tree [''publish'']
   \<and> map_of stale_tree ''tmp'' = Some (Dir [(''junk'', File (Raw ''left over''))])
   \<and> cargo_ok ''cargo build --release'' (fresh_publish stale_tree)
       = (0, snd (cargo_ok ''cargo build --release'' (fresh_publish stale_tree)))
   \<and> map_of (snd (cargo_ok ''cargo build --release'' (fresh_publish stale_tree))) ''tmp''
       = map_of (fresh_publish stale_tree) ''tmp''
   \<and> main cargo_ok by_initial linux_host stale_tree
       = (Raised FileExistsError,
          snd (cargo_ok ''cargo build --release'' (fresh_publish stale_tree)))
   \<and> lookup (snd (cargo_ok ''cargo build --release'' (fresh_publish stale_tree))) [''tmp'']
       = Some (Dir [(''junk'', File (Raw ''left over''))])"
proof -
  let ?b = "snd (cargo_ok ''cargo build --release'' (fresh_publish stale_tree))"
  have a: "\<not> is_file stale_tree [''publish'']" by code_simp
  have t: "map_of stale_tree ''tmp'' = Some (Dir [(''junk'', File (Raw ''left over''))])"
    by code_simp
  have c: "cargo_ok ''cargo build --release'' (fresh_publish stale_tree) = (0, ?b)"
    by (simp add: cargo_ok_def)
  have k: "map_of ?b ''tmp'' = map_of (fresh_publish stale_tree) ''tmp''"
    by (simp add: cargo_ok_def update_conv')
  from staging_collision [of stale_tree _ cargo_ok ?b by_initial linux_host, OF a t c k] a t c k
  show ?thesis by simp
qed






text \<open>
  C7. In a run that finishes, the binary taken from \<^verbatim>\<open>target/release\<close> is the file
  \<^verbatim>\<open>skye.exe\<close> when the platform is \<^verbatim>\<open>Windows\<close> and the file \<^verbatim>\<open>skye\<close> otherwise; it
  is staged, and so archived at top level, under that same name with its content, and no
  member has the other name.
\<close>

theorem binary_selected:
  assumes "main os_system rank h fs = (Finished, fs')"
  shows "\<exists>bin z.
      lookup (snd (os_system ''cargo build --release'' (fresh_publish fs)))
        [''target'', ''release'', if PLATFORM h = ''Windows'' then ''skye.exe'' else ''skye'']
        = Some (File bin)
    \<and> lookup fs' (archive_path h) = Some (File (Packed z))
    \<and> ([if PLATFORM h = ''Windows'' then ''skye.exe'' else ''skye''], Some bin) \<in> set z
    \<and> [if PLATFORM h = ''Windows'' then ''skye'' else ''skye.exe''] \<notin> set (map fst z)"
proof -
  from main_Finished(2) [OF assms] show ?thesis
  proof (rule pack_Finished_tree)
    fix b bin lic es
    assume build: "os_system ''cargo build --release'' (fresh_publish fs) = (0, b)"
      and bin: "lookup b [''target'', ''release'', binary_name h] = Some (File bin)"
      and at: "lookup fs' (archive_path h)
                 = Some (File (Packed (zip_walk rank [] (staging rank h bin lic es))))"
    let ?z = "zip_walk rank [] (staging rank h bin lic es)"
    let ?lib = "zip_walk rank [''lib''] es"
    have "set_mset (mset ?z)
            = set_mset ({#([''lib''], None), ([binary_name h], Some bin),
                          ([''LICENSE''], Some lic)#} + mset ?lib)"
      by (simp only: zip_walk_staging)
    then have setz: "set ?z = {([''lib''], None), ([binary_name h], Some bin),
                               ([''LICENSE''], Some lic)} \<union> set ?lib"
      by simp
    have mem: "([binary_name h], Some bin) \<in> set ?z"
      unfolding setz by simp
    have single: "[n] \<notin> fst ` set ?lib" for n
    proof
      assume "[n] \<in> fst ` set ?lib"
      then obtain e where "([n], e) \<in> set ?lib" by auto
      from zip_walk_deep [OF this] show False by simp
    qed
    have other: "[if PLATFORM h = ''Windows'' then ''skye'' else ''skye.exe''] \<notin> set (map fst ?z)"
      unfolding set_map setz using single by (simp add: binary_name_def)
    from build bin at mem other show ?thesis
      unfolding binary_name_def by (intro exI [of _ bin] exI [of _ ?z]) simp
  qed
qed

theorem binary_selected_witness:
  "main cargo_ok_exe by_initial windows_host sample_tree
     = (Finished, snd (main cargo_ok_exe by_initial windows_host sample_tree))
   \<and> PLATFORM windows_host = ''Windows''
   \<and> (\<exists>bin z.
      lookup (snd (cargo_ok_exe ''cargo build --release'' (fresh_publish sample_tree)))
        [''target'', ''release'', ''skye.exe''] = Some (File bin)
    \<and> lookup (snd (main cargo_ok_exe by_initial windows_host sample_tree))
        [''publish'', ''Skye-AMD64-Windows.zip''] = Some (File (Packed z))
    \<and> ([''skye.exe''], Some bin) \<in> set z
    \<and> [''skye''] \<notin> set (map fst z))"
proof -
  have run: "main cargo_ok_exe by_initial windows_host sample_tree
     = (Finished, snd (main cargo_ok_exe by_initial windows_host sample_tree))"
    by code_simp
  have p: "PLATFORM windows_host = ''Windows''" by code_simp
  have path: "archive_path windows_host = [''publish'', ''Skye-AMD64-Windows.zip'']"
    by code_simp
  from binary_selected [OF run] run p show ?thesis
    unfolding path by simp
qed

text \<open>
  C8. The process leaves through \<^verbatim>\<open>sys.exit\<close> only when the build command returned a
  status other than zero, and then with status 1: no other condition is handled. When the
  build succeeded and the compiled binary, the file \<^verbatim>\<open>LICENSE\<close> or the directory
  \<^verbatim>\<open>lib\<close> is missing, the run ends in an exception that nobody caught.
\<close>

theorem filesystem_errors_propagate:
  "(fst (main os_system rank h fs) = SysExit k \<longleftrightarrow>
      \<not> is_file fs [''publish'']
      \<and> fst (os_system ''cargo build --release'' (fresh_publish fs)) \<noteq> 0 \<and> k = 1)
   \<and> (\<not> is_file fs [''publish'']
      \<and> os_system ''cargo build --release'' (fresh_publish fs) = (0, b)
      \<and> (lookup b [''target'', ''release'', binary_name h] = None
         \<or> lookup b [''LICENSE''] = None \<or> lookup b [''lib''] = None)
      \<longrightarrow> (\<exists>e. fst (main os_system rank h fs) = Raised e))"
proof (cases "is_file fs [''publish'']")
  case True
  then show ?thesis by (simp add: main_publish_file)
next
  case False
  have run: "main os_system rank h fs
               = pack os_system rank h ''cargo build --release'' (fresh_publish fs)"
    using False by (rule main_pack)
  have exit: "fst (main os_system rank h fs) = SysExit k \<longleftrightarrow>
      fst (os_system ''cargo build --release'' (fresh_publish fs)) \<noteq> 0 \<and> k = 1"
    unfolding run by (rule pack_SysExit)
  have raised: "\<exists>e. fst (main os_system rank h fs) = Raised e"
    if "os_system ''cargo build --release'' (fresh_publish fs) = (0, b)"
      and "lookup b [''target'', ''release'', binary_name h] = None
         \<or> lookup b [''LICENSE''] = None \<or> lookup b [''lib''] = None"
    unfolding run
    using that
      pack_Raised [of os_system "''cargo build --release''" "fresh_publish fs" b h rank]
    unfolding lookup_single by simp
  from False exit raised show ?thesis by blast
qed

theorem filesystem_errors_propagate_witness:
  "\<not> is_file unlicensed_tree [''publish'']
   \<and> cargo_ok ''cargo build --release'' (fresh_publish unlicensed_tree)
       = (0, snd (cargo_ok ''cargo build --release'' (fresh_publish unlicensed_tree)))
   \<and> lookup (snd (cargo_ok ''cargo build --release'' (fresh_publish unlicensed_tree)))
        [''LICENSE''] = None
   \<and> (\<exists>e. fst (main cargo_ok by_initial linux_host unlicensed_tree) = Raised e)
   \<and> fst (main cargo_ok by_initial linux_host unlicensed_tree) = Raised FileNotFoundError
   \<and> fst (main cargo_ok by_initial linux_host unlicensed_tree) \<noteq> SysExit 1"
proof -
  let ?b = "snd (cargo_ok ''cargo build --release'' (fresh_publish unlicensed_tree))"
  have a: "\<not> is_file unlicensed_tree [''publish'']" by code_simp
  have c: "cargo_ok ''cargo build --release'' (fresh_publish unlicensed_tree) = (0, ?b)"
    by (simp add: cargo_ok_def)
  have l: "lookup ?b [''LICENSE''] = None" by code_simp
  have e: "fst (main cargo_ok by_initial linux_host unlicensed_tree) = Raised FileNotFoundError"
    by code_simp
  from filesystem_errors_propagate [of cargo_ok by_initial linux_host unlicensed_tree 1 ?b] a c l e
  show ?thesis by simp
qed



text \<open>
  C10. The binary name is selected by comparing the normalised platform name with
  \<^verbatim>\<open>"Windows"\<close>. Normalisation rewrites only \<^verbatim>\<open>"Darwin"\<close>, so for every raw name of
  the operating system the selection is the one a comparison of the raw name with
  \<^verbatim>\<open>"Windows"\<close> makes.
\<close>

theorem binary_name_raw_eq: "binary_name h = binary_name_raw h"
  by (simp add: binary_name_def binary_name_raw_def PLATFORM_def)

end
